theory Spec2Isabelle
  imports Main
begin

section \<open>The buffer manager of src/buffer.cpp\<close>

text \<open>
  The class \<^verbatim>\<open>BufMgr\<close> keeps a table of frame descriptors, a pool of pages, a hash
  table from (file, page number) to frame number, and a clock hand. Every method is
  modelled as a function from the state to a result and the state it leaves behind. A
  C++ exception is the result \<open>Raise e\<close>, returned together with the state as it was
  when the exception was thrown (C++ does not roll anything back).
\<close>

subsection \<open>Data\<close>

type_synonym PageId = nat
type_synonym FrameId = nat

text \<open>A \<^verbatim>\<open>File*\<close>: the null pointer, or the identity of a file object.\<close>

datatype fileptr = NULL | File nat

text \<open>
  Modelled from the spec: the class \<^verbatim>\<open>Page\<close> is declared outside src/. A page carries
  its page number (zero for an unused page) and its bytes.
\<close>

record Page =
  page_number :: PageId
  page_data :: string

text \<open>
  Modelled from the spec: the class \<^verbatim>\<open>BufDesc\<close> is declared in buffer.h, which is
  not under src/. The fields are those of section 3 of the spec; the pin count is a
  non-negative integer there.
\<close>

record BufDesc =
  filePtr :: fileptr
  pageNo :: PageId
  frameNo :: FrameId
  pinCnt :: nat
  dirty :: bool
  valid :: bool
  refbit :: bool

text \<open>
  Modelled from the spec: \<^verbatim>\<open>BufDesc::Set\<close> and \<^verbatim>\<open>BufDesc::Clear\<close> (buffer.h, section
  4.4 of the spec). Neither touches \<open>frameNo\<close>.
\<close>

definition BufDesc_Set :: "fileptr \<Rightarrow> PageId \<Rightarrow> BufDesc \<Rightarrow> BufDesc" where
  "BufDesc_Set f p d =
     d\<lparr>filePtr := f, pageNo := p, pinCnt := 1, dirty := False, valid := True, refbit := True\<rparr>"

definition BufDesc_Clear :: "BufDesc \<Rightarrow> BufDesc" where
  "BufDesc_Clear d =
     d\<lparr>filePtr := NULL, pageNo := 0, pinCnt := 0, dirty := False, valid := False, refbit := False\<rparr>"

text \<open>
  The exceptions. \<^verbatim>\<open>PagePinnedException\<close> and \<^verbatim>\<open>PageNotPinnedException\<close> carry the
  file name, the page number and the frame number (the file pointer stands for the
  name); \<^verbatim>\<open>BadBufferException\<close> carries the frame number and the dirty, valid and
  refbit flags.
\<close>

datatype error =
    BufferExceeded
  | PageNotPinned fileptr PageId FrameId
  | PagePinned fileptr PageId FrameId
  | BadBuffer FrameId bool bool bool
  | HashNotFound

datatype 'a result = Ok 'a | Raise error

text \<open>
  The calls made on the file collaborator (class \<^verbatim>\<open>File\<close>, outside src/), in the
  order in which they are made.
\<close>

datatype file_call =
    FileRead fileptr PageId
  | FileWrite fileptr Page
  | FileAllocate fileptr
  | FileDelete fileptr PageId

text \<open>
  Modelled from the spec: the class \<^verbatim>\<open>BufHashTbl\<close> is outside src/. Section 4.3 of
  the spec gives \<open>lookup\<close> (fails with NotFound), \<open>insert\<close> and \<open>remove\<close> (fails with
  NotFound). \<open>None\<close> is the \<^verbatim>\<open>HashNotFoundException\<close>.
\<close>

type_synonym BufHashTbl = "fileptr \<times> PageId \<rightharpoonup> FrameId"

definition ht_lookup :: "BufHashTbl \<Rightarrow> fileptr \<Rightarrow> PageId \<Rightarrow> FrameId option" where
  "ht_lookup h f p = h (f, p)"

definition ht_insert :: "BufHashTbl \<Rightarrow> fileptr \<Rightarrow> PageId \<Rightarrow> FrameId \<Rightarrow> BufHashTbl" where
  "ht_insert h f p v = h((f, p) \<mapsto> v)"

definition ht_remove :: "BufHashTbl \<Rightarrow> fileptr \<Rightarrow> PageId \<Rightarrow> BufHashTbl option" where
  "ht_remove h f p = (case h (f, p) of None \<Rightarrow> None | Some v \<Rightarrow> Some (h((f, p) := None)))"

text \<open>
  The members of \<^verbatim>\<open>BufMgr\<close>, and \<open>fileCalls\<close>, the trace of the calls on the file
  collaborator. \<^verbatim>\<open>bufDescTable[i]\<close> is \<open>bufDescTable s ! i\<close>: an index outside the
  array is undefined behaviour in C++ and unspecified here; a theorem that depends on
  the table having a descriptor for every frame says so.
\<close>

record BufMgr =
  numBufs :: nat
  bufDescTable :: "BufDesc list"
  bufPool :: "Page list"
  hashTable :: BufHashTbl
  clockHand :: FrameId
  fileCalls :: "file_call list"

subsection \<open>Constructor\<close>

text \<open>
  Modelled from the spec: the default constructors of \<^verbatim>\<open>BufDesc\<close> and \<^verbatim>\<open>Page\<close> are
  outside src/. A frame begins invalid with everything else zeroed (section 3,
  lifecycle); an unused page has page number zero.
\<close>

definition BufDesc_default :: BufDesc where
  "BufDesc_default =
     \<lparr>filePtr = NULL, pageNo = 0, frameNo = 0, pinCnt = 0, dirty = False, valid = False,
      refbit = False\<rparr>"

definition Page_default :: Page where
  "Page_default = \<lparr>page_number = 0, page_data = []\<rparr>"

text \<open>
  \<^verbatim>\<open>BufMgr::BufMgr\<close>: every descriptor gets its frame number and is marked invalid, the
  hash table is empty, and \<^verbatim>\<open>clockHand = bufs - 1\<close> is unsigned 32-bit arithmetic.
\<close>

definition BufMgr_init :: "nat \<Rightarrow> BufMgr" where
  "BufMgr_init bufs =
     \<lparr>numBufs = bufs,
      bufDescTable = map (\<lambda>i. BufDesc_default\<lparr>frameNo := i, valid := False\<rparr>) [0..<bufs],
      bufPool = replicate bufs Page_default,
      hashTable = Map.empty,
      clockHand = (bufs + 2 ^ 32 - 1) mod 2 ^ 32,
      fileCalls = []\<rparr>"

subsection \<open>flushFile\<close>

text \<open>
  First loop of \<^verbatim>\<open>BufMgr::flushFile\<close>: it only reads. The result is the exception it
  throws, if any.
\<close>

fun flushFile_check :: "BufDesc list \<Rightarrow> fileptr \<Rightarrow> nat list \<Rightarrow> error option" where
  "flushFile_check tbl f [] = None"
| "flushFile_check tbl f (i # is) =
     (if filePtr (tbl ! i) = f then
        if pinCnt (tbl ! i) \<ge> 1 then Some (PagePinned f (pageNo (tbl ! i)) (frameNo (tbl ! i)))
        else if pageNo (tbl ! i) = 0 then
          Some (BadBuffer (frameNo (tbl ! i)) (dirty (tbl ! i)) (valid (tbl ! i)) (refbit (tbl ! i)))
        else flushFile_check tbl f is
      else flushFile_check tbl f is)"

text \<open>
  Second loop of \<^verbatim>\<open>BufMgr::flushFile\<close>. \<^verbatim>\<open>hashTable->remove\<close> is not inside a
  \<^verbatim>\<open>try\<close>, so its exception leaves the method.
\<close>

definition write_back :: "nat \<Rightarrow> BufMgr \<Rightarrow> BufMgr" where
  "write_back i s =
     (if dirty (bufDescTable s ! i) then
        s\<lparr>fileCalls := fileCalls s @ [FileWrite (filePtr (bufDescTable s ! i)) (bufPool s ! i)],
          bufDescTable := (bufDescTable s)[i := (bufDescTable s ! i)\<lparr>dirty := False\<rparr>]\<rparr>
      else s)"

fun flushFile_commit :: "fileptr \<Rightarrow> nat list \<Rightarrow> BufMgr \<Rightarrow> unit result \<times> BufMgr" where
  "flushFile_commit f [] s = (Ok (), s)"
| "flushFile_commit f (i # is) s =
     (if filePtr (bufDescTable s ! i) = f then
        (let s1 = write_back i s in
         (case ht_remove (hashTable s1) f (pageNo (bufDescTable s1 ! i)) of
            None \<Rightarrow> (Raise HashNotFound, s1)
          | Some h \<Rightarrow>
              flushFile_commit f is
                (s1\<lparr>hashTable := h,
                    bufDescTable := (bufDescTable s1)[i := BufDesc_Clear (bufDescTable s1 ! i)]\<rparr>)))
      else flushFile_commit f is s)"

definition flushFile :: "BufMgr \<Rightarrow> fileptr \<Rightarrow> unit result \<times> BufMgr" where
  "flushFile s f =
     (case flushFile_check (bufDescTable s) f [0..<numBufs s] of
        Some e \<Rightarrow> (Raise e, s)
      | None \<Rightarrow> flushFile_commit f [0..<numBufs s] s)"

subsection \<open>The clock\<close>

text \<open>
  \<^verbatim>\<open>BufMgr::advanceClock\<close>; \<^verbatim>\<open>clockHand + 1\<close> is unsigned 32-bit arithmetic. With no
  frame at all the remainder is undefined in C++; \<^verbatim>\<open>allocBuf\<close> throws before it
  gets there.
\<close>

definition advanceClock :: "BufMgr \<Rightarrow> BufMgr" where
  "advanceClock s = s\<lparr>clockHand := ((clockHand s + 1) mod 2 ^ 32) mod numBufs s\<rparr>"

text \<open>
  One pass through the body of the \<^verbatim>\<open>while(true)\<close> loop of \<^verbatim>\<open>BufMgr::allocBuf\<close>:
  it ends in \<^verbatim>\<open>return\<close> (or in an exception of \<^verbatim>\<open>flushFile\<close>, which nothing here
  catches), or in \<^verbatim>\<open>continue\<close>. The frame number is read after \<^verbatim>\<open>flushFile\<close>.
\<close>

datatype loop_exit = Returns "FrameId result \<times> BufMgr" | Continues BufMgr

definition allocBuf_body :: "BufMgr \<Rightarrow> loop_exit" where
  "allocBuf_body s =
     (let s1 = advanceClock s; index = clockHand s1 in
      if valid (bufDescTable s1 ! index) then
        if refbit (bufDescTable s1 ! index) then
          Continues
            (s1\<lparr>bufDescTable := (bufDescTable s1)[index := (bufDescTable s1 ! index)\<lparr>refbit := False\<rparr>]\<rparr>)
        else if pinCnt (bufDescTable s1 ! index) \<ge> 1 then Continues s1
        else if dirty (bufDescTable s1 ! index) then
          (case flushFile s1 (filePtr (bufDescTable s1 ! index)) of
             (Raise e, s2) \<Rightarrow> Returns (Raise e, s2)
           | (Ok u, s2) \<Rightarrow> Returns (Ok (frameNo (bufDescTable s2 ! index)), s2))
        else Returns (Ok (frameNo (bufDescTable s1 ! index)), s1)
      else Returns (Ok (frameNo (bufDescTable s1 ! index)), s1))"

text \<open>The loop itself. \<open>None\<close> means that it never returns.\<close>

partial_function (option) allocBuf_loop :: "BufMgr \<Rightarrow> (FrameId result \<times> BufMgr) option" where
  "allocBuf_loop s =
     (case allocBuf_body s of Returns r \<Rightarrow> Some r | Continues s' \<Rightarrow> allocBuf_loop s')"

declare allocBuf_loop.simps [code]

text \<open>
  The same loop with a bound on the number of passes, each of which calls
  \<^verbatim>\<open>advanceClock\<close> once: \<open>None\<close> means that the bound was reached before the loop
  returned. It counts the clock steps.
\<close>

fun allocBuf_steps :: "nat \<Rightarrow> BufMgr \<Rightarrow> (FrameId result \<times> BufMgr) option" where
  "allocBuf_steps 0 s = None"
| "allocBuf_steps (Suc n) s =
     (case allocBuf_body s of Returns r \<Rightarrow> Some r | Continues s' \<Rightarrow> allocBuf_steps n s')"

text \<open>The scan at the head of \<^verbatim>\<open>BufMgr::allocBuf\<close>, then the loop.\<close>

definition some_unpinned :: "BufMgr \<Rightarrow> bool" where
  "some_unpinned s = list_ex (\<lambda>i. pinCnt (bufDescTable s ! i) = 0) [0..<numBufs s]"

definition allocBuf :: "BufMgr \<Rightarrow> (FrameId result \<times> BufMgr) option" where
  "allocBuf s = (if \<not> some_unpinned s then Some (Raise BufferExceeded, s) else allocBuf_loop s)"

subsection \<open>readPage, unPinPage, allocPage, disposePage\<close>

text \<open>
  What \<^verbatim>\<open>readPage\<close> and \<^verbatim>\<open>allocPage\<close> do with the frame that \<^verbatim>\<open>allocBuf\<close> gave
  them: the entry of a valid frame is removed from the hash table, and a missing entry
  is tolerated.
\<close>

definition drop_victim_entry :: "FrameId \<Rightarrow> BufMgr \<Rightarrow> BufMgr" where
  "drop_victim_entry n s =
     (if valid (bufDescTable s ! n) then
        (case ht_remove (hashTable s) (filePtr (bufDescTable s ! n)) (pageNo (bufDescTable s ! n)) of
           None \<Rightarrow> s
         | Some h \<Rightarrow> s\<lparr>hashTable := h\<rparr>)
      else s)"

text \<open>
  \<^verbatim>\<open>BufMgr::readPage\<close>. \<open>pg\<close> is the page that \<^verbatim>\<open>file->readPage(pageNo)\<close> returns.
  The result is the frame whose page the caller gets a pointer to. \<^verbatim>\<open>allocBuf\<close> is
  called inside the handler, so nothing it throws is caught here.
\<close>

definition readPage :: "BufMgr \<Rightarrow> fileptr \<Rightarrow> PageId \<Rightarrow> Page \<Rightarrow> (FrameId result \<times> BufMgr) option" where
  "readPage s f p pg =
     (case ht_lookup (hashTable s) f p of
        Some cur \<Rightarrow>
          Some (Ok cur,
            s\<lparr>bufDescTable := (bufDescTable s)
                [cur := (bufDescTable s ! cur)\<lparr>refbit := True, pinCnt := pinCnt (bufDescTable s ! cur) + 1\<rparr>]\<rparr>)
      | None \<Rightarrow>
          (case allocBuf s of
             None \<Rightarrow> None
           | Some (Raise e, s1) \<Rightarrow> Some (Raise e, s1)
           | Some (Ok n, s1) \<Rightarrow>
               (let s2 = drop_victim_entry n s1;
                    s3 = s2\<lparr>bufPool := (bufPool s2)[n := pg],
                           fileCalls := fileCalls s2 @ [FileRead f p]\<rparr>;
                    s4 = s3\<lparr>hashTable := ht_insert (hashTable s3) f p n\<rparr>;
                    s5 = s4\<lparr>bufDescTable := (bufDescTable s4)[n := BufDesc_Set f p (bufDescTable s4 ! n)]\<rparr>
                in Some (Ok n, s5))))"

text \<open>\<^verbatim>\<open>BufMgr::unPinPage\<close>.\<close>

definition unPinPage :: "BufMgr \<Rightarrow> fileptr \<Rightarrow> PageId \<Rightarrow> bool \<Rightarrow> unit result \<times> BufMgr" where
  "unPinPage s f p d =
     (case ht_lookup (hashTable s) f p of
        None \<Rightarrow> (Ok (), s)
      | Some cur \<Rightarrow>
          if pinCnt (bufDescTable s ! cur) = 0 then (Raise (PageNotPinned f p cur), s)
          else
            (let s1 = s\<lparr>bufDescTable := (bufDescTable s)
                          [cur := (bufDescTable s ! cur)\<lparr>pinCnt := pinCnt (bufDescTable s ! cur) - 1\<rparr>]\<rparr>
             in (if d then
                   (Ok (), s1\<lparr>bufDescTable := (bufDescTable s1)[cur := (bufDescTable s1 ! cur)\<lparr>dirty := True\<rparr>]\<rparr>)
                 else (Ok (), s1))))"

text \<open>
  \<^verbatim>\<open>BufMgr::allocPage\<close>. \<open>newPage\<close> is the page that \<^verbatim>\<open>file->allocatePage()\<close> returns.
  The result is the new page number and the frame of the page.
\<close>

definition allocPage :: "BufMgr \<Rightarrow> fileptr \<Rightarrow> Page \<Rightarrow> ((PageId \<times> FrameId) result \<times> BufMgr) option" where
  "allocPage s f newPage =
     (let s0 = s\<lparr>fileCalls := fileCalls s @ [FileAllocate f]\<rparr>;
          p = page_number newPage
      in (case allocBuf s0 of
            None \<Rightarrow> None
          | Some (Raise e, s1) \<Rightarrow> Some (Raise e, s1)
          | Some (Ok n, s1) \<Rightarrow>
              (let s2 = drop_victim_entry n s1;
                   s3 = s2\<lparr>hashTable := ht_insert (hashTable s2) f p n\<rparr>;
                   s4 = s3\<lparr>bufDescTable := (bufDescTable s3)[n := BufDesc_Set f p (bufDescTable s3 ! n)]\<rparr>;
                   s5 = s4\<lparr>bufPool := (bufPool s4)[n := newPage]\<rparr>
               in Some (Ok (p, n), s5))))"

text \<open>
  \<^verbatim>\<open>BufMgr::disposePage\<close>. The descriptor is cleared first; the key given to
  \<^verbatim>\<open>hashTable->remove\<close> is read from the descriptor after that. Both exceptions of the
  hash table are caught.
\<close>

definition disposePage :: "BufMgr \<Rightarrow> fileptr \<Rightarrow> PageId \<Rightarrow> unit result \<times> BufMgr" where
  "disposePage s f p =
     (let s3 =
        (case ht_lookup (hashTable s) f p of
           None \<Rightarrow> s
         | Some cur \<Rightarrow>
             (let s1 = s\<lparr>bufDescTable := (bufDescTable s)[cur := BufDesc_Clear (bufDescTable s ! cur)]\<rparr>
              in (case ht_remove (hashTable s1) f (pageNo (bufDescTable s1 ! cur)) of
                    None \<Rightarrow> s1
                  | Some h \<Rightarrow> s1\<lparr>hashTable := h\<rparr>)))
      in (Ok (), s3\<lparr>fileCalls := fileCalls s3 @ [FileDelete f p]\<rparr>))"

subsection \<open>The victim loop in the words of the spec\<close>

text \<open>
  Section 4.2 of the spec, written down as the spec words it, for comparison with the
  source's \<open>advanceClock\<close> and \<open>allocBuf_body\<close>. Nothing here is taken from the source.

  \<^verbatim>\<open>advanceClock\<close> in the spec: \<open>clock_hand \<leftarrow> (clock_hand + 1) mod N\<close>.
\<close>

definition spec_advanceClock :: "BufMgr \<Rightarrow> BufMgr" where
  "spec_advanceClock s = s\<lparr>clockHand := (clockHand s + 1) mod numBufs s\<rparr>"

text \<open>
  Steps 1 to 7 of the victim selection loop: the clock is advanced; the descriptor \<open>d\<close>
  under the hand is read once; an invalid \<open>d\<close> is returned; else a set refbit is cleared
  and the loop continues; else a pinned \<open>d\<close> is skipped; else a dirty \<open>d\<close> has its file
  flushed and is returned; else \<open>d\<close> is returned. An error of \<^verbatim>\<open>flushFile\<close> surfaces
  unchanged (section 7).
\<close>

definition spec_victim_step :: "BufMgr \<Rightarrow> loop_exit" where
  "spec_victim_step s =
     (let s1 = spec_advanceClock s;
          d = bufDescTable s1 ! clockHand s1
      in if \<not> valid d then Returns (Ok (frameNo d), s1)
         else if refbit d then
           Continues (s1\<lparr>bufDescTable := (bufDescTable s1)[clockHand s1 := d\<lparr>refbit := False\<rparr>]\<rparr>)
         else if pinCnt d \<ge> 1 then Continues s1
         else if dirty d then
           (case flushFile s1 (filePtr d) of
              (Ok u, s2) \<Rightarrow> Returns (Ok (frameNo d), s2)
            | (Raise e, s2) \<Rightarrow> Returns (Raise e, s2))
         else Returns (Ok (frameNo d), s1))"

fun spec_victim_loop :: "nat \<Rightarrow> BufMgr \<Rightarrow> (FrameId result \<times> BufMgr) option" where
  "spec_victim_loop 0 s = None"
| "spec_victim_loop (Suc n) s =
     (case spec_victim_step s of Returns r \<Rightarrow> Some r | Continues s' \<Rightarrow> spec_victim_loop n s')"

subsection \<open>Counting clock steps\<close>

text \<open>
  \<open>next_hand\<close> is where the next \<^verbatim>\<open>advanceClock\<close> puts the hand. \<open>clock_dist N h u\<close> is
  the number of further advances that take the hand from \<open>h\<close> to \<open>u\<close>. \<open>passes_needed s u\<close>
  bounds the passes of the loop until it returns, for a frame \<open>u\<close> that is not pinned: the
  passes until the hand is on \<open>u\<close>, and one more turn when the refbit of \<open>u\<close> has to be
  cleared first.
\<close>

definition next_hand :: "BufMgr \<Rightarrow> nat" where
  "next_hand s = ((clockHand s + 1) mod 2 ^ 32) mod numBufs s"

definition clock_dist :: "nat \<Rightarrow> nat \<Rightarrow> nat \<Rightarrow> nat" where
  "clock_dist N h u = (if h \<le> u then u - h else u + N - h)"

definition passes_needed :: "BufMgr \<Rightarrow> nat \<Rightarrow> nat" where
  "passes_needed s u =
     clock_dist (numBufs s) (next_hand s) u + 1 +
     (if valid (bufDescTable s ! u) \<and> refbit (bufDescTable s ! u) then numBufs s else 0)"

subsection \<open>What a successful flushFile has done\<close>




subsection \<open>States used as examples\<close>

text \<open>
  A pool of three frames after \<^verbatim>\<open>readPage(A, 1)\<close> on the fresh manager, \<open>A\<close> being
  \<open>File 1\<close>: page 1 of the file sits in frame 0 with pin count \<open>k\<close>.
\<close>

definition page_X :: Page where
  "page_X = \<lparr>page_number = 1, page_data = ''X''\<rparr>"

definition one_page :: "nat \<Rightarrow> BufMgr" where
  "one_page k =
     \<lparr>numBufs = 3,
      bufDescTable =
        [\<lparr>filePtr = File 1, pageNo = 1, frameNo = 0, pinCnt = k, dirty = False, valid = True,
          refbit = True\<rparr>,
         BufDesc_default\<lparr>frameNo := 1\<rparr>,
         BufDesc_default\<lparr>frameNo := 2\<rparr>],
      bufPool = [page_X, Page_default, Page_default],
      hashTable = [(File 1, 1) \<mapsto> 0],
      clockHand = 0,
      fileCalls = [FileRead (File 1) 1]\<rparr>"

text \<open>The state that \<^verbatim>\<open>disposePage(A, 1)\<close> leaves behind when it starts in \<open>one_page 0\<close>.\<close>

definition one_page_disposed :: BufMgr where
  "one_page_disposed =
     \<lparr>numBufs = 3,
      bufDescTable =
        [BufDesc_default, BufDesc_default\<lparr>frameNo := 1\<rparr>, BufDesc_default\<lparr>frameNo := 2\<rparr>],
      bufPool = [page_X, Page_default, Page_default],
      hashTable = [(File 1, 1) \<mapsto> 0],
      clockHand = 0,
      fileCalls = [FileRead (File 1) 1, FileDelete (File 1) 1]\<rparr>"

text \<open>A pool of one frame, which holds page 1 of \<open>File 1\<close>, pinned once.\<close>

definition one_frame_pinned :: BufMgr where
  "one_frame_pinned =
     \<lparr>numBufs = 1,
      bufDescTable =
        [\<lparr>filePtr = File 1, pageNo = 1, frameNo = 0, pinCnt = 1, dirty = False, valid = True,
          refbit = True\<rparr>],
      bufPool = [page_X],
      hashTable = [(File 1, 1) \<mapsto> 0],
      clockHand = 0,
      fileCalls = [FileRead (File 1) 1]\<rparr>"

text \<open>
  The pool of the third scenario of section 8 of the spec: three frames hold pages 1, 2
  and 3 of \<open>File 1\<close>, valid, clean and not pinned. \<open>full_pool k\<close> is that pool after \<open>k\<close>
  passes of the clock loop: the hand has advanced \<open>k\<close> times from \<open>N - 1 = 2\<close>, and the
  refbits of the frames below \<open>k\<close> are cleared. \<open>full_pool 0\<close> has every refbit set.
\<close>

definition full_frame :: "nat \<Rightarrow> bool \<Rightarrow> BufDesc" where
  "full_frame i r =
     \<lparr>filePtr = File 1, pageNo = i + 1, frameNo = i, pinCnt = 0, dirty = False, valid = True,
      refbit = r\<rparr>"

definition full_pool :: "nat \<Rightarrow> BufMgr" where
  "full_pool k =
     \<lparr>numBufs = 3,
      bufDescTable = [full_frame 0 (k < 1), full_frame 1 (k < 2), full_frame 2 (k < 3)],
      bufPool = [\<lparr>page_number = 1, page_data = ''P''\<rparr>, \<lparr>page_number = 2, page_data = ''Q''\<rparr>,
                 \<lparr>page_number = 3, page_data = ''R''\<rparr>],
      hashTable = [(File 1, 1) \<mapsto> 0, (File 1, 2) \<mapsto> 1, (File 1, 3) \<mapsto> 2],
      clockHand = (k + 2) mod 3,
      fileCalls = []\<rparr>"

definition full_pool_after_read :: "Page \<Rightarrow> BufMgr" where
  "full_pool_after_read pg =
     \<lparr>numBufs = 3,
      bufDescTable =
        [\<lparr>filePtr = File 1, pageNo = 4, frameNo = 0, pinCnt = 1, dirty = False, valid = True,
          refbit = True\<rparr>,
         full_frame 1 False, full_frame 2 False],
      bufPool = [pg, \<lparr>page_number = 2, page_data = ''Q''\<rparr>, \<lparr>page_number = 3, page_data = ''R''\<rparr>],
      hashTable = [(File 1, 2) \<mapsto> 1, (File 1, 3) \<mapsto> 2, (File 1, 4) \<mapsto> 0],
      clockHand = 0,
      fileCalls = [FileRead (File 1) 4]\<rparr>"

text \<open>
  A pool with two files: frame 0 holds a dirty page of \<open>File 1\<close>, frame 1 a pinned page
  of \<open>File 2\<close>, frame 2 a clean page of \<open>File 1\<close>; and the same pool after
  \<^verbatim>\<open>flushFile\<close> of \<open>File 1\<close>.
\<close>

definition two_files :: BufMgr where
  "two_files =
     \<lparr>numBufs = 3,
      bufDescTable =
        [\<lparr>filePtr = File 1, pageNo = 1, frameNo = 0, pinCnt = 0, dirty = True, valid = True,
          refbit = False\<rparr>,
         \<lparr>filePtr = File 2, pageNo = 1, frameNo = 1, pinCnt = 1, dirty = False, valid = True,
          refbit = True\<rparr>,
         \<lparr>filePtr = File 1, pageNo = 2, frameNo = 2, pinCnt = 0, dirty = False, valid = True,
          refbit = True\<rparr>],
      bufPool = [\<lparr>page_number = 1, page_data = ''P''\<rparr>, \<lparr>page_number = 1, page_data = ''Q''\<rparr>,
                 \<lparr>page_number = 2, page_data = ''R''\<rparr>],
      hashTable = [(File 1, 1) \<mapsto> 0, (File 2, 1) \<mapsto> 1, (File 1, 2) \<mapsto> 2],
      clockHand = 2,
      fileCalls = []\<rparr>"

definition two_files_flushed :: BufMgr where
  "two_files_flushed =
     \<lparr>numBufs = 3,
      bufDescTable =
        [BufDesc_default,
         \<lparr>filePtr = File 2, pageNo = 1, frameNo = 1, pinCnt = 1, dirty = False, valid = True,
          refbit = True\<rparr>,
         BufDesc_default\<lparr>frameNo := 2\<rparr>],
      bufPool = [\<lparr>page_number = 1, page_data = ''P''\<rparr>, \<lparr>page_number = 1, page_data = ''Q''\<rparr>,
                 \<lparr>page_number = 2, page_data = ''R''\<rparr>],
      hashTable = [(File 2, 1) \<mapsto> 1],
      clockHand = 2,
      fileCalls = [FileWrite (File 1) \<lparr>page_number = 1, page_data = ''P''\<rparr>]\<rparr>"

text \<open>
  The pool with two files, started with the hand on frame 1, after one pass of the clock
  loop: the hand is on frame 2 and the refbit of frame 2 is cleared.
\<close>

definition two_files_swept :: BufMgr where
  "two_files_swept =
     two_files\<lparr>clockHand := 2,
       bufDescTable := (bufDescTable two_files)[2 := (bufDescTable two_files ! 2)\<lparr>refbit := False\<rparr>]\<rparr>"

text \<open>
  The pool after \<^verbatim>\<open>readPage(A, 2)\<close> in \<open>one_page_disposed\<close>: the entry of page 1 that
  \<^verbatim>\<open>disposePage\<close> left behind is still in the hash table, and frame 1 holds page 2 with
  pin count \<open>k\<close> and dirty flag \<open>d\<close>. \<open>stale_flushed\<close> is that pool after \<^verbatim>\<open>flushFile\<close> of
  the file, started with page 2 dirty and not pinned.
\<close>

definition page_Y :: Page where
  "page_Y = \<lparr>page_number = 2, page_data = ''Y''\<rparr>"

definition stale_page :: "nat \<Rightarrow> bool \<Rightarrow> BufMgr" where
  "stale_page k d =
     \<lparr>numBufs = 3,
      bufDescTable =
        [BufDesc_default,
         \<lparr>filePtr = File 1, pageNo = 2, frameNo = 1, pinCnt = k, dirty = d, valid = True,
          refbit = True\<rparr>,
         BufDesc_default\<lparr>frameNo := 2\<rparr>],
      bufPool = [page_X, page_Y, Page_default],
      hashTable = [(File 1, 1) \<mapsto> 0, (File 1, 2) \<mapsto> 1],
      clockHand = 1,
      fileCalls = [FileRead (File 1) 1, FileDelete (File 1) 1, FileRead (File 1) 2]\<rparr>"


text \<open>The two exceptions that \<^verbatim>\<open>flushFile\<close> throws itself, in its first loop.\<close>

definition flush_error :: "error \<Rightarrow> bool" where
  "flush_error e = (case e of PagePinned f p n \<Rightarrow> True | BadBuffer n a b c \<Rightarrow> True | _ \<Rightarrow> False)"

section \<open>Properties\<close>

subsection \<open>The loop and its bounded form\<close>

lemma allocBuf_steps_loop: "allocBuf_steps n s = Some r \<Longrightarrow> allocBuf_loop s = Some r"
proof (induction n arbitrary: s)
  case 0
  then show ?case by simp
next
  case (Suc n)
  show ?case
  proof (cases "allocBuf_body s")
    case (Returns x)
    with Suc.prems show ?thesis by (subst allocBuf_loop.simps) simp
  next
    case (Continues s')
    with Suc.prems have "allocBuf_steps n s' = Some r" by simp
    then have "allocBuf_loop s' = Some r" by (rule Suc.IH)
    with Continues show ?thesis by (subst allocBuf_loop.simps) simp
  qed
qed

lemma allocBuf_loop_steps:
  assumes "allocBuf_loop s = Some r"
  shows "\<exists>n. allocBuf_steps n s = Some r"
proof (rule allocBuf_loop.raw_induct [where P = "\<lambda>s r. \<exists>n. allocBuf_steps n s = Some r", OF _ assms])
  fix loop :: "BufMgr \<Rightarrow> (FrameId result \<times> BufMgr) option" and s r
  assume 1: "\<And>s r. loop s = Some r \<Longrightarrow> \<exists>n. allocBuf_steps n s = Some r"
    "(case allocBuf_body s of Returns r \<Rightarrow> Some r | Continues s' \<Rightarrow> loop s') = Some r"
  show "\<exists>n. allocBuf_steps n s = Some r"
  proof (cases "allocBuf_body s")
    case (Returns x)
    with 1(2) have "allocBuf_steps (Suc 0) s = Some r" by simp
    then show ?thesis by blast
  next
    case (Continues s')
    with 1(2) have "loop s' = Some r" by simp
    then obtain n where "allocBuf_steps n s' = Some r" using 1(1) by blast
    with Continues have "allocBuf_steps (Suc n) s = Some r" by simp
    then show ?thesis by blast
  qed
qed

lemma allocBuf_loop_iff: "allocBuf_loop s = Some r \<longleftrightarrow> (\<exists>n. allocBuf_steps n s = Some r)"
  using allocBuf_loop_steps allocBuf_steps_loop by blast

lemma all_pinned_iff:
  "\<not> some_unpinned s \<longleftrightarrow> (\<forall>i<numBufs s. 0 < pinCnt (bufDescTable s ! i))"
  by (auto simp: some_unpinned_def list_ex_iff)

subsection \<open>The exceptions of flushFile\<close>

lemma flushFile_check_error: "flushFile_check tbl f is = Some e \<Longrightarrow> flush_error e"
  by (induction "is") (auto simp: flush_error_def split: if_splits)

lemma flushFile_check_None:
  "flushFile_check tbl f is = None \<longleftrightarrow>
     (\<forall>i\<in>set is. filePtr (tbl ! i) = f \<longrightarrow> pinCnt (tbl ! i) = 0 \<and> pageNo (tbl ! i) \<noteq> 0)"
  by (induction "is") auto

lemma flushFile_commit_error: "flushFile_commit f is s = (Raise e, s') \<Longrightarrow> e = HashNotFound"
  by (induction "is" arbitrary: s) (auto simp: Let_def split: if_splits option.splits)

lemma flushFile_raise:
  assumes "flushFile s F = (Raise e, s')"
  shows "e = HashNotFound \<or> (flush_error e \<and> s' = s)"
  using assms flushFile_check_error flushFile_commit_error
  by (fastforce simp: flushFile_def split: option.splits)

lemma allocBuf_body_raise:
  "allocBuf_body s = Returns (Raise e, s') \<Longrightarrow> e = HashNotFound \<or> flush_error e"
  using flushFile_raise
  by (fastforce simp: allocBuf_body_def Let_def split: if_splits prod.splits result.splits)

lemma allocBuf_steps_raise:
  "allocBuf_steps n s = Some (Raise e, s') \<Longrightarrow> e = HashNotFound \<or> flush_error e"
  by (induction n arbitrary: s) (auto split: loop_exit.splits dest: allocBuf_body_raise)

subsection \<open>A run from the constructor\<close>

lemma BufMgr_init_3:
  "BufMgr_init 3 =
     \<lparr>numBufs = 3,
      bufDescTable =
        [BufDesc_default, BufDesc_default\<lparr>frameNo := 1\<rparr>, BufDesc_default\<lparr>frameNo := 2\<rparr>],
      bufPool = [Page_default, Page_default, Page_default],
      hashTable = Map.empty, clockHand = 2, fileCalls = []\<rparr>"
proof -
  have "replicate 3 Page_default = [Page_default, Page_default, Page_default]"
    by (simp add: numeral_3_eq_3)
  moreover have "[0..<3] = [0, 1, 2]"
    by (simp add: upt_rec)
  ultimately show ?thesis
    by (simp add: BufMgr_init_def BufDesc_default_def)
qed

lemma alloc_first:
  "allocBuf (BufMgr_init 3) = Some (Ok 0, (BufMgr_init 3)\<lparr>clockHand := 0\<rparr>)"
proof -
  have "some_unpinned (BufMgr_init 3)"
    by (simp add: BufMgr_init_3 some_unpinned_def BufDesc_default_def upt_rec)
  moreover have "allocBuf_body (BufMgr_init 3) = Returns (Ok 0, (BufMgr_init 3)\<lparr>clockHand := 0\<rparr>)"
    by (simp add: BufMgr_init_3 allocBuf_body_def advanceClock_def BufDesc_default_def)
  then have "allocBuf_loop (BufMgr_init 3) = Some (Ok 0, (BufMgr_init 3)\<lparr>clockHand := 0\<rparr>)"
    by (intro allocBuf_steps_loop [where n = 1]) simp
  ultimately show ?thesis by (simp add: allocBuf_def)
qed

lemma read_first_page: "readPage (BufMgr_init 3) (File 1) 1 page_X = Some (Ok 0, one_page 1)"
proof -
  have "ht_lookup (hashTable (BufMgr_init 3)) (File 1) 1 = None"
    by (simp add: BufMgr_init_def ht_lookup_def)
  then show ?thesis
    by (simp add: readPage_def alloc_first)
      (simp add: BufMgr_init_3 drop_victim_entry_def ht_insert_def BufDesc_Set_def
        one_page_def BufDesc_default_def)
qed

lemma unpin_first_page: "unPinPage (one_page 1) (File 1) 1 False = (Ok (), one_page 0)"
  by (simp add: unPinPage_def ht_lookup_def one_page_def)

lemma dispose_first_page: "disposePage (one_page 0) (File 1) 1 = (Ok (), one_page_disposed)"
  by (simp add: disposePage_def ht_lookup_def ht_remove_def BufDesc_Clear_def one_page_def
      one_page_disposed_def BufDesc_default_def)


subsection \<open>disposePage\<close>

text \<open>
  Whenever the page is cached and its number is not 0, \<^verbatim>\<open>disposePage\<close> leaves its
  entry in the hash table and the frame cleared.
\<close>

lemma disposePage_entry_survives:
  assumes "ht_lookup (hashTable s) f p = Some cur" and "cur < length (bufDescTable s)" and "p \<noteq> 0"
  shows "hashTable (snd (disposePage s f p)) (f, p) = Some cur \<and>
    \<not> valid (bufDescTable (snd (disposePage s f p)) ! cur)"
  using assms
  by (auto simp: disposePage_def ht_lookup_def ht_remove_def BufDesc_Clear_def Let_def
      split: option.splits)

text \<open>
  Claim C1: for every file and page cached in some frame, after \<^verbatim>\<open>disposePage\<close> returns
  the frame has been cleared and the hash table has no entry for the page any more.

  The code clears the frame but keeps the entry. In \<open>one_page 0\<close> page 1 of file \<open>File 1\<close>
  is cached in frame 0. \<^verbatim>\<open>disposePage\<close> clears the descriptor first, reads the page
  number of the cleared descriptor, which is 0, and asks the hash table to remove
  \<open>(File 1, 0)\<close>; that entry does not exist, the exception is swallowed, and the entry of
  \<open>(File 1, 1)\<close> stays, pointing to a frame that is not valid. \<^verbatim>\<open>flushFile\<close> removes
  the entry before it clears the descriptor.
\<close>

theorem disposePage_keeps_entry:
  "ht_lookup (hashTable (one_page 0)) (File 1) 1 = Some 0 \<and>
   valid (bufDescTable (one_page 0) ! 0) \<and>
   (\<exists>s'. disposePage (one_page 0) (File 1) 1 = (Ok (), s') \<and>
      \<not> valid (bufDescTable s' ! 0) \<and>
      ht_lookup (hashTable s') (File 1) 1 = Some 0)"
  using dispose_first_page
  by (simp add: one_page_def one_page_disposed_def ht_lookup_def BufDesc_default_def)

subsection \<open>unPinPage\<close>

text \<open>
  Claim C9: if \<open>(F, p)\<close> is not in the hash table, \<^verbatim>\<open>unPinPage\<close> changes nothing and
  raises no error; if it is mapped to a frame whose pin count is 0, \<^verbatim>\<open>unPinPage\<close>
  raises \<^verbatim>\<open>PageNotPinned\<close> (and changes nothing); otherwise it takes one from the pin
  count of that frame, and the dirty flag afterwards is the old flag or \<open>d\<close>: it is set
  when \<open>d\<close> is true and never cleared. Nothing else changes.
\<close>

theorem unPinPage_cases:
  "(ht_lookup (hashTable s) F p = None \<longrightarrow> unPinPage s F p d = (Ok (), s)) \<and>
   (ht_lookup (hashTable s) F p = Some n \<and> pinCnt (bufDescTable s ! n) = 0 \<longrightarrow>
      unPinPage s F p d = (Raise (PageNotPinned F p n), s)) \<and>
   (ht_lookup (hashTable s) F p = Some n \<and> pinCnt (bufDescTable s ! n) \<noteq> 0 \<longrightarrow>
      unPinPage s F p d =
        (Ok (), s\<lparr>bufDescTable := (bufDescTable s)
           [n := (bufDescTable s ! n)
              \<lparr>pinCnt := pinCnt (bufDescTable s ! n) - 1,
               dirty := (dirty (bufDescTable s ! n) \<or> d)\<rparr>]\<rparr>))"
  by (cases d; cases "n < length (bufDescTable s)")
    (auto simp: unPinPage_def Let_def list_update_beyond)

theorem unPinPage_cases_witness:
  "ht_lookup (hashTable (one_page 1)) (File 1) 2 = None \<and>
   unPinPage (one_page 1) (File 1) 2 True = (Ok (), one_page 1) \<and>
   ht_lookup (hashTable (one_page 0)) (File 1) 1 = Some 0 \<and>
   pinCnt (bufDescTable (one_page 0) ! 0) = 0 \<and>
   unPinPage (one_page 0) (File 1) 1 True = (Raise (PageNotPinned (File 1) 1 0), one_page 0) \<and>
   ht_lookup (hashTable (one_page 1)) (File 1) 1 = Some 0 \<and>
   pinCnt (bufDescTable (one_page 1) ! 0) = 1 \<and>
   pinCnt (bufDescTable (snd (unPinPage (one_page 1) (File 1) 1 True)) ! 0) = 0 \<and>
   dirty (bufDescTable (snd (unPinPage (one_page 1) (File 1) 1 True)) ! 0)"
proof -
  have a: "ht_lookup (hashTable (one_page 1)) (File 1) 2 = None"
    by (simp add: one_page_def ht_lookup_def)
  have b: "ht_lookup (hashTable (one_page 0)) (File 1) 1 = Some 0"
    "pinCnt (bufDescTable (one_page 0) ! 0) = 0"
    by (simp_all add: one_page_def ht_lookup_def)
  have c: "ht_lookup (hashTable (one_page 1)) (File 1) 1 = Some 0"
    "pinCnt (bufDescTable (one_page 1) ! 0) = 1"
    by (simp_all add: one_page_def ht_lookup_def)
  from a unPinPage_cases [where s = "one_page 1" and F = "File 1" and p = 2 and d = True]
  have "unPinPage (one_page 1) (File 1) 2 True = (Ok (), one_page 1)" by blast
  moreover from b unPinPage_cases [where s = "one_page 0" and F = "File 1" and p = 1 and n = 0 and d = True]
  have "unPinPage (one_page 0) (File 1) 1 True = (Raise (PageNotPinned (File 1) 1 0), one_page 0)"
    by simp
  moreover from c unPinPage_cases [where s = "one_page 1" and F = "File 1" and p = 1 and n = 0 and d = True]
  have "unPinPage (one_page 1) (File 1) 1 True =
    (Ok (), (one_page 1)\<lparr>bufDescTable := (bufDescTable (one_page 1))
       [0 := (bufDescTable (one_page 1) ! 0)\<lparr>pinCnt := 0, dirty := True\<rparr>]\<rparr>)"
    by simp
  then have "pinCnt (bufDescTable (snd (unPinPage (one_page 1) (File 1) 1 True)) ! 0) = 0"
    "dirty (bufDescTable (snd (unPinPage (one_page 1) (File 1) 1 True)) ! 0)"
    by (simp_all add: one_page_def)
  ultimately show ?thesis using a b c by simp
qed

subsection \<open>allocPage\<close>

text \<open>
  Claim C10: \<^verbatim>\<open>allocPage\<close> calls \<^verbatim>\<open>allocatePage\<close> on the file before it asks for a
  frame. When every frame is pinned it raises \<^verbatim>\<open>BufferExceeded\<close>; by then the page has
  been allocated in the file (the call is in the trace), and the frame descriptors, the
  pool, the hash table and the clock hand are as they were.
\<close>

theorem allocPage_all_pinned:
  assumes "\<forall>i<numBufs s. 0 < pinCnt (bufDescTable s ! i)"
  shows "allocPage s F newPage =
    Some (Raise BufferExceeded, s\<lparr>fileCalls := fileCalls s @ [FileAllocate F]\<rparr>)"
  using assms by (simp add: allocPage_def allocBuf_def some_unpinned_def list_ex_iff)

theorem allocPage_all_pinned_witness:
  "numBufs one_frame_pinned = 1 \<and>
   pinCnt (bufDescTable one_frame_pinned ! 0) = 1 \<and>
   allocPage one_frame_pinned (File 1) page_X =
     Some (Raise BufferExceeded,
       one_frame_pinned\<lparr>fileCalls := [FileRead (File 1) 1, FileAllocate (File 1)]\<rparr>)"
proof -
  have "\<forall>i<numBufs one_frame_pinned. 0 < pinCnt (bufDescTable one_frame_pinned ! i)"
    by (simp add: one_frame_pinned_def)
  from allocPage_all_pinned [OF this, of "File 1" page_X]
  show ?thesis by (simp add: one_frame_pinned_def)
qed

subsection \<open>flushFile fails before it changes anything\<close>

text \<open>
  Claim C3: if \<^verbatim>\<open>flushFile(F)\<close> raises \<^verbatim>\<open>PagePinned\<close> or \<^verbatim>\<open>BadBuffer\<close>, it does so
  before any write-back, and the failed call has changed no frame descriptor, no page of
  the pool and no entry of the hash table: the state it leaves, trace of file calls
  included, is the state it started in. It raises one of the two as soon as a frame of
  the table whose file is \<open>F\<close> has a pin count of at least 1 or the page number 0.
\<close>

theorem flushFile_failure_changes_nothing:
  "(fst (flushFile s F) = Raise (PagePinned f p n) \<or> fst (flushFile s F) = Raise (BadBuffer n a b c)
      \<longrightarrow> snd (flushFile s F) = s) \<and>
   (i < numBufs s \<and> filePtr (bufDescTable s ! i) = F \<and>
      (1 \<le> pinCnt (bufDescTable s ! i) \<or> pageNo (bufDescTable s ! i) = 0)
      \<longrightarrow> (\<exists>e. flushFile s F = (Raise e, s) \<and>
            ((\<exists>f p n. e = PagePinned f p n) \<or> (\<exists>n a b c. e = BadBuffer n a b c))))"
proof (intro conjI impI)
  obtain r t where rt: "flushFile s F = (r, t)" by (cases "flushFile s F")
  assume "fst (flushFile s F) = Raise (PagePinned f p n) \<or> fst (flushFile s F) = Raise (BadBuffer n a b c)"
  with rt obtain e where e: "r = Raise e" "e \<noteq> HashNotFound" by auto
  with rt flushFile_raise [of s F e t] show "snd (flushFile s F) = s" by simp
next
  assume a: "i < numBufs s \<and> filePtr (bufDescTable s ! i) = F \<and>
      (1 \<le> pinCnt (bufDescTable s ! i) \<or> pageNo (bufDescTable s ! i) = 0)"
  then have "flushFile_check (bufDescTable s) F [0..<numBufs s] \<noteq> None"
    unfolding flushFile_check_None by auto
  then obtain e where e: "flushFile_check (bufDescTable s) F [0..<numBufs s] = Some e" by blast
  then have "flushFile s F = (Raise e, s)" by (simp add: flushFile_def)
  moreover from e have "flush_error e" by (rule flushFile_check_error)
  then have "(\<exists>f p n. e = PagePinned f p n) \<or> (\<exists>n a b c. e = BadBuffer n a b c)"
    by (cases e) (simp_all add: flush_error_def)
  ultimately show "\<exists>e. flushFile s F = (Raise e, s) \<and>
            ((\<exists>f p n. e = PagePinned f p n) \<or> (\<exists>n a b c. e = BadBuffer n a b c))" by blast
qed

theorem flushFile_failure_changes_nothing_witness:
  "filePtr (bufDescTable (one_page 1) ! 0) = File 1 \<and>
   pinCnt (bufDescTable (one_page 1) ! 0) = 1 \<and>
   fst (flushFile (one_page 1) (File 1)) = Raise (PagePinned (File 1) 1 0) \<and>
   snd (flushFile (one_page 1) (File 1)) = one_page 1 \<and>
   filePtr (bufDescTable (BufMgr_init 3) ! 0) = NULL \<and>
   pageNo (bufDescTable (BufMgr_init 3) ! 0) = 0 \<and>
   fst (flushFile (BufMgr_init 3) NULL) = Raise (BadBuffer 0 False False False) \<and>
   snd (flushFile (BufMgr_init 3) NULL) = BufMgr_init 3"
proof -
  have "fst (flushFile (one_page 1) (File 1)) = Raise (PagePinned (File 1) 1 0)"
    by (simp add: flushFile_def one_page_def upt_rec)
  with flushFile_failure_changes_nothing
    [where s = "one_page 1" and F = "File 1" and f = "File 1" and p = 1 and n = 0]
  have a: "fst (flushFile (one_page 1) (File 1)) = Raise (PagePinned (File 1) 1 0)"
    "snd (flushFile (one_page 1) (File 1)) = one_page 1"
    by simp_all
  have "fst (flushFile (BufMgr_init 3) NULL) = Raise (BadBuffer 0 False False False)"
    by (simp add: flushFile_def BufMgr_init_3 BufDesc_default_def upt_rec)
  with flushFile_failure_changes_nothing
    [where s = "BufMgr_init 3" and F = NULL and n = 0 and a = False and b = False and c = False]
  have b: "fst (flushFile (BufMgr_init 3) NULL) = Raise (BadBuffer 0 False False False)"
    "snd (flushFile (BufMgr_init 3) NULL) = BufMgr_init 3"
    by simp_all
  have "filePtr (bufDescTable (BufMgr_init 3) ! 0) = NULL"
    "pageNo (bufDescTable (BufMgr_init 3) ! 0) = 0"
    by (simp_all add: BufMgr_init_3 BufDesc_default_def)
  with a b show ?thesis by (simp add: one_page_def)
qed

subsection \<open>allocBuf on a pool with every frame pinned\<close>

text \<open>
  Claim C4: \<^verbatim>\<open>allocBuf\<close> raises \<^verbatim>\<open>BufferExceeded\<close> if and only if every frame has a
  positive pin count, and when it raises it, the state (the clock hand and every frame
  descriptor with it) is unchanged.
\<close>

theorem allocBuf_BufferExceeded:
  "((\<exists>s'. allocBuf s = Some (Raise BufferExceeded, s')) \<longleftrightarrow>
      (\<forall>i<numBufs s. 0 < pinCnt (bufDescTable s ! i))) \<and>
   (allocBuf s = Some (Raise BufferExceeded, s') \<longrightarrow> s' = s)"
proof -
  have loop: "allocBuf_loop s \<noteq> Some (Raise BufferExceeded, t)" for t
  proof
    assume "allocBuf_loop s = Some (Raise BufferExceeded, t)"
    then obtain n where "allocBuf_steps n s = Some (Raise BufferExceeded, t)"
      using allocBuf_loop_steps by blast
    from allocBuf_steps_raise [OF this] show False by (simp add: flush_error_def)
  qed
  show ?thesis
    using loop by (auto simp: allocBuf_def all_pinned_iff [symmetric])
qed

theorem allocBuf_BufferExceeded_witness:
  "numBufs one_frame_pinned = 1 \<and>
   pinCnt (bufDescTable one_frame_pinned ! 0) = 1 \<and>
   allocBuf one_frame_pinned = Some (Raise BufferExceeded, one_frame_pinned) \<and>
   pinCnt (bufDescTable (BufMgr_init 3) ! 0) = 0 \<and>
   allocBuf (BufMgr_init 3) \<noteq> Some (Raise BufferExceeded, BufMgr_init 3)"
proof -
  have "\<forall>i<numBufs one_frame_pinned. 0 < pinCnt (bufDescTable one_frame_pinned ! i)"
    by (simp add: one_frame_pinned_def)
  with allocBuf_BufferExceeded [of one_frame_pinned]
  have "allocBuf one_frame_pinned = Some (Raise BufferExceeded, one_frame_pinned)" by blast
  moreover have z: "pinCnt (bufDescTable (BufMgr_init 3) ! 0) = 0"
    by (simp add: BufMgr_init_3 BufDesc_default_def)
  moreover have "\<not> (\<forall>i<numBufs (BufMgr_init 3). 0 < pinCnt (bufDescTable (BufMgr_init 3) ! i))"
    using z by (auto simp: BufMgr_init_3 intro!: exI [of _ 0])
  with allocBuf_BufferExceeded [of "BufMgr_init 3"]
  have "allocBuf (BufMgr_init 3) \<noteq> Some (Raise BufferExceeded, BufMgr_init 3)" by blast
  ultimately show ?thesis by (simp add: one_frame_pinned_def)
qed

subsection \<open>The pool with two files\<close>


subsection \<open>The third scenario of the spec\<close>

lemma sweep:
  "allocBuf_body (full_pool 0) = Continues (full_pool 1)"
  "allocBuf_body (full_pool 1) = Continues (full_pool 2)"
  "allocBuf_body (full_pool 2) = Continues (full_pool 3)"
  "allocBuf_body (full_pool 3) = Returns (Ok 0, (full_pool 3)\<lparr>clockHand := 0\<rparr>)"
  by (simp_all add: allocBuf_body_def advanceClock_def full_pool_def full_frame_def)

lemma alloc_full: "allocBuf (full_pool 0) = Some (Ok 0, (full_pool 3)\<lparr>clockHand := 0\<rparr>)"
proof -
  have "some_unpinned (full_pool 0)"
    by (simp add: some_unpinned_def full_pool_def full_frame_def upt_rec)
  moreover have "allocBuf_steps (Suc (Suc (Suc (Suc 0)))) (full_pool 0) = Some (Ok 0, (full_pool 3)\<lparr>clockHand := 0\<rparr>)"
    using sweep by simp
  then have "allocBuf_loop (full_pool 0) = Some (Ok 0, (full_pool 3)\<lparr>clockHand := 0\<rparr>)"
    by (rule allocBuf_steps_loop)
  ultimately show ?thesis by (simp add: allocBuf_def)
qed

text \<open>
  Claim C6: with three frames, the clock hand at its initial value 2, and the frames
  holding pages 1, 2 and 3 of a file, valid, clean, unpinned and with their refbits
  set, a \<^verbatim>\<open>readPage\<close> of page 4 misses, the clock clears the three refbits in one
  revolution (three passes that continue) and the fourth pass returns frame 0, the frame
  under the first advance; frame 0 then holds page 4, pinned once.
\<close>

theorem readPage_full_pool:
  "clockHand (BufMgr_init 3) = 2 \<and> clockHand (full_pool 0) = 2 \<and>
   allocBuf_body (full_pool 0) = Continues (full_pool 1) \<and>
   allocBuf_body (full_pool 1) = Continues (full_pool 2) \<and>
   allocBuf_body (full_pool 2) = Continues (full_pool 3) \<and>
   allocBuf_body (full_pool 3) = Returns (Ok 0, (full_pool 3)\<lparr>clockHand := 0\<rparr>) \<and>
   readPage (full_pool 0) (File 1) 4 pg = Some (Ok 0, full_pool_after_read pg)"
proof -
  have "ht_lookup (hashTable (full_pool 0)) (File 1) 4 = None"
    by (simp add: full_pool_def ht_lookup_def)
  then have "readPage (full_pool 0) (File 1) 4 pg = Some (Ok 0, full_pool_after_read pg)"
    by (simp add: readPage_def alloc_full)
      (simp add: full_pool_def full_frame_def full_pool_after_read_def drop_victim_entry_def
        ht_remove_def ht_insert_def BufDesc_Set_def fun_upd_twist)
  moreover have "clockHand (BufMgr_init 3) = 2" "clockHand (full_pool 0) = 2"
    by (simp_all add: BufMgr_init_3 full_pool_def)
  ultimately show ?thesis
    using sweep by simp
qed

subsection \<open>The victim loop returns within 2N clock steps\<close>

lemma clock_dist_step:
  "h < N \<Longrightarrow> u < N \<Longrightarrow> h \<noteq> u \<Longrightarrow> clock_dist N ((h + 1) mod N) u + 1 = clock_dist N h u"
  by (cases "h + 1 = N") (auto simp: clock_dist_def)

lemma clock_dist_wrap: "u < N \<Longrightarrow> clock_dist N ((u + 1) mod N) u = N - 1"
  by (cases "u + 1 = N") (auto simp: clock_dist_def)

lemma clock_dist_less: "h < N \<Longrightarrow> u < N \<Longrightarrow> clock_dist N h u < N"
  by (auto simp: clock_dist_def)

lemma allocBuf_body_Continues:
  assumes "allocBuf_body s = Continues s'"
  shows "numBufs s' = numBufs s \<and> clockHand s' = next_hand s \<and>
    valid (bufDescTable s ! next_hand s) \<and>
    (if refbit (bufDescTable s ! next_hand s)
     then bufDescTable s' =
       (bufDescTable s)[next_hand s := (bufDescTable s ! next_hand s)\<lparr>refbit := False\<rparr>]
     else 1 \<le> pinCnt (bufDescTable s ! next_hand s) \<and> bufDescTable s' = bufDescTable s)"
  using assms
  by (auto simp: allocBuf_body_def advanceClock_def Let_def next_hand_def
      split: if_splits prod.splits result.splits)

lemma next_hand_step:
  assumes "numBufs s' = numBufs s" "clockHand s' = next_hand s" "numBufs s < 2 ^ 32" "0 < numBufs s"
  shows "next_hand s' = (next_hand s + 1) mod numBufs s"
proof -
  have "next_hand s < numBufs s" using assms(4) by (simp add: next_hand_def)
  with assms(3) have "next_hand s + 1 < 2 ^ 32" by simp
  then show ?thesis using assms(1,2) by (simp add: next_hand_def [of s'])
qed

lemma allocBuf_steps_enough:
  assumes "length (bufDescTable s) = numBufs s" "numBufs s < 2 ^ 32" "u < numBufs s"
    "pinCnt (bufDescTable s ! u) = 0" "passes_needed s u \<le> n"
  shows "\<exists>r. allocBuf_steps n s = Some r"
  using assms
proof (induction n arbitrary: s)
  case 0
  then show ?case by (simp add: passes_needed_def)
next
  case (Suc n)
  let ?h = "next_hand s" and ?N = "numBufs s" and ?t = "bufDescTable s"
  have hN: "?h < ?N" using Suc.prems(3) by (simp add: next_hand_def)
  show ?case
  proof (cases "allocBuf_body s")
    case (Returns r)
    then show ?thesis by simp
  next
    case (Continues s')
    note b = allocBuf_body_Continues [OF Continues]
    have N': "numBufs s' = ?N" and v: "valid (?t ! ?h)" using b by simp_all
    have nh: "next_hand s' = (?h + 1) mod ?N"
      using next_hand_step [of s' s] b Suc.prems(2,3) by simp
    have len: "length (bufDescTable s') = numBufs s'"
      using b Suc.prems(1) by (auto split: if_splits)
    have pin: "pinCnt (bufDescTable s' ! u) = 0"
      using b Suc.prems(1,3,4) by (cases "?h = u") (auto split: if_splits)
    have need: "passes_needed s' u \<le> n"
    proof (cases "?h = u")
      case True
      with b Suc.prems(4) have r: "refbit (?t ! u)"
        and t': "bufDescTable s' = ?t[u := (?t ! u)\<lparr>refbit := False\<rparr>]"
        by (auto split: if_splits)
      from True v r Suc.prems(5) have "?N \<le> n"
        by (simp add: passes_needed_def clock_dist_def)
      moreover have "\<not> refbit (bufDescTable s' ! u)"
        using t' Suc.prems(1,3) by simp
      ultimately show ?thesis
        using True nh N' clock_dist_wrap [OF Suc.prems(3)] Suc.prems(3)
        by (simp add: passes_needed_def)
    next
      case False
      then have same: "bufDescTable s' ! u = ?t ! u"
        using b by (auto split: if_splits)
      from clock_dist_step [OF hN Suc.prems(3) False]
      have "passes_needed s' u + 1 = passes_needed s u"
        using nh N' same by (simp add: passes_needed_def)
      with Suc.prems(5) show ?thesis by simp
    qed
    from Suc.IH [OF len _ _ pin need] N' Suc.prems(2,3)
    obtain r where "allocBuf_steps n s' = Some r" by auto
    with Continues show ?thesis by simp
  qed
qed

text \<open>
  Claim C7: in every state with at least one frame whose pin count is 0, the victim loop
  of \<^verbatim>\<open>allocBuf\<close> terminates after at most \<open>2 * numBufs\<close> clock advances, with a victim
  or with the error of the write-back of a dirty victim. The state has a descriptor for
  every frame, and \<open>numBufs\<close> is a 32-bit number.
\<close>

theorem allocBuf_terminates:
  assumes "length (bufDescTable s) = numBufs s" and "numBufs s < 2 ^ 32"
    and "\<exists>i<numBufs s. pinCnt (bufDescTable s ! i) = 0"
  shows "\<exists>r. allocBuf_steps (2 * numBufs s) s = Some r \<and> allocBuf s = Some r"
proof -
  from assms(3) obtain u where u: "u < numBufs s" "pinCnt (bufDescTable s ! u) = 0" by blast
  then have "next_hand s < numBufs s" by (simp add: next_hand_def)
  from clock_dist_less [OF this u(1)] have "passes_needed s u \<le> 2 * numBufs s"
    by (simp add: passes_needed_def)
  from allocBuf_steps_enough [OF assms(1,2) u this]
  obtain r where r: "allocBuf_steps (2 * numBufs s) s = Some r" by blast
  then have "allocBuf_loop s = Some r" by (rule allocBuf_steps_loop)
  moreover have "some_unpinned s" using u by (auto simp: some_unpinned_def list_ex_iff)
  ultimately show ?thesis using r by (simp add: allocBuf_def)
qed

theorem allocBuf_terminates_witness:
  "length (bufDescTable (full_pool 0)) = numBufs (full_pool 0) \<and>
   numBufs (full_pool 0) = 3 \<and>
   pinCnt (bufDescTable (full_pool 0) ! 0) = 0 \<and>
   allocBuf_steps 3 (full_pool 0) = None \<and>
   allocBuf_steps (2 * 3) (full_pool 0) = Some (Ok 0, (full_pool 3)\<lparr>clockHand := 0\<rparr>) \<and>
   allocBuf (full_pool 0) = Some (Ok 0, (full_pool 3)\<lparr>clockHand := 0\<rparr>)"
proof -
  have a: "length (bufDescTable (full_pool 0)) = numBufs (full_pool 0)"
    "numBufs (full_pool 0) = 3" "pinCnt (bufDescTable (full_pool 0) ! 0) = 0"
    by (simp_all add: full_pool_def full_frame_def)
  have b: "numBufs (full_pool 0) < 2 ^ 32"
    using a(2) by simp
  have c: "\<exists>i<numBufs (full_pool 0). pinCnt (bufDescTable (full_pool 0) ! i) = 0"
    using a(2,3) by (intro exI [of _ 0]) simp
  from allocBuf_terminates [OF a(1) b c] a(2) alloc_full
  have "allocBuf_steps (2 * 3) (full_pool 0) = Some (Ok 0, (full_pool 3)\<lparr>clockHand := 0\<rparr>)"
    by auto
  moreover have "allocBuf_steps (Suc (Suc (Suc 0))) (full_pool 0) = None"
    using sweep by simp
  then have "allocBuf_steps 3 (full_pool 0) = None"
    by (simp add: numeral_3_eq_3)
  ultimately show ?thesis using a alloc_full by simp
qed

subsection \<open>The victim loop\<close>

lemma frameNo_list_update:
  "frameNo y = frameNo (xs ! i) \<Longrightarrow> frameNo (xs[i := y] ! j) = frameNo (xs ! j)"
  by (cases "i = j"; cases "i < length xs") (simp_all add: list_update_beyond)

lemma write_back_frameNo:
  "frameNo (bufDescTable (write_back i s) ! j) = frameNo (bufDescTable s ! j)"
  by (simp add: write_back_def frameNo_list_update)

lemma flushFile_commit_frameNo:
  "frameNo (bufDescTable (snd (flushFile_commit f is s)) ! j) = frameNo (bufDescTable s ! j)"
proof (induction "is" arbitrary: s)
  case Nil
  then show ?case by simp
next
  case (Cons i "is")
  show ?case
    by (simp add: Let_def Cons.IH frameNo_list_update write_back_frameNo BufDesc_Clear_def
        split: option.splits)
qed

lemma flushFile_frameNo:
  "frameNo (bufDescTable (snd (flushFile s f)) ! j) = frameNo (bufDescTable s ! j)"
  by (simp add: flushFile_def flushFile_commit_frameNo split: option.splits)

lemma flushFile_commit_hand:
  "clockHand (snd (flushFile_commit f is s)) = clockHand s \<and>
   numBufs (snd (flushFile_commit f is s)) = numBufs s"
proof (induction "is" arbitrary: s)
  case Nil
  then show ?case by simp
next
  case (Cons i "is")
  show ?case
    by (simp add: Let_def Cons.IH write_back_def split: option.splits)
qed

lemma flushFile_hand:
  "clockHand (snd (flushFile s f)) = clockHand s \<and> numBufs (snd (flushFile s f)) = numBufs s"
  by (simp add: flushFile_def flushFile_commit_hand split: option.splits)

lemma advanceClock_spec:
  assumes "clockHand s < numBufs s" and "numBufs s < 2 ^ 32"
  shows "advanceClock s = spec_advanceClock s"
proof -
  from assms have "clockHand s + 1 < 2 ^ 32" by simp
  then show ?thesis by (simp add: advanceClock_def spec_advanceClock_def)
qed

lemma allocBuf_body_spec:
  assumes "clockHand s < numBufs s" and "numBufs s < 2 ^ 32"
  shows "allocBuf_body s = spec_victim_step s"
proof -
  have "frameNo (bufDescTable s2 ! j) = frameNo (bufDescTable s1 ! j)"
    if "flushFile s1 f = (r, s2)" for s1 s2 f r j
    using flushFile_frameNo [of s1 f j] that by simp
  then show ?thesis
    by (auto simp: allocBuf_body_def spec_victim_step_def Let_def advanceClock_spec [OF assms]
        split: prod.splits result.splits)
qed

lemma allocBuf_body_hand:
  assumes "allocBuf_body s = Continues s' \<or> allocBuf_body s = Returns (r, s')"
  shows "clockHand s' = next_hand s \<and> numBufs s' = numBufs s"
proof -
  have "clockHand s2 = clockHand s1 \<and> numBufs s2 = numBufs s1"
    if "flushFile s1 f = (x, s2)" for s1 s2 f x
    using flushFile_hand [of s1 f] that by simp
  with assms show ?thesis
    by (auto simp: allocBuf_body_def advanceClock_def next_hand_def Let_def
        split: if_splits prod.splits result.splits)
qed

lemma next_hand_spec:
  assumes "clockHand s < numBufs s" and "numBufs s < 2 ^ 32"
  shows "next_hand s = (clockHand s + 1) mod numBufs s"
proof -
  from assms have "clockHand s + 1 < 2 ^ 32" by simp
  then show ?thesis by (simp add: next_hand_def)
qed

lemma allocBuf_steps_spec:
  assumes "clockHand s < numBufs s" and "numBufs s < 2 ^ 32"
  shows "allocBuf_steps n s = spec_victim_loop n s"
  using assms
proof (induction n arbitrary: s)
  case 0
  then show ?case by simp
next
  case (Suc n)
  note eq = allocBuf_body_spec [OF Suc.prems]
  show ?case
  proof (cases "allocBuf_body s")
    case (Returns x)
    moreover from Returns eq have "spec_victim_step s = Returns x" by simp
    ultimately show ?thesis by simp
  next
    case (Continues s')
    then have h: "clockHand s' = next_hand s" "numBufs s' = numBufs s"
      using allocBuf_body_hand [of s s'] by simp_all
    from Suc.prems(1) have "next_hand s < numBufs s" by (simp add: next_hand_def)
    with h Suc.prems(2) have "allocBuf_steps n s' = spec_victim_loop n s'"
      by (intro Suc.IH) simp_all
    moreover from Continues eq have "spec_victim_step s = Continues s'" by simp
    ultimately show ?thesis using Continues by simp
  qed
qed

text \<open>
  Claim C5: when some frame is not pinned, the victim loop of \<^verbatim>\<open>allocBuf\<close> behaves as
  the spec words it. Each pass advances the clock: it leaves the hand at
  \<open>(clockHand + 1) mod numBufs\<close>, whether it returns or continues. An invalid frame under
  the hand is returned at once; a valid frame with its refbit set has the refbit cleared
  and is skipped; a valid frame with a clear refbit and a pin count of at least 1 is
  skipped and its refbit is left alone; a valid, unpinned frame with a clear refbit is
  returned, after \<^verbatim>\<open>flushFile\<close> on its file when it is dirty. One pass of the source's
  loop body is one step of the spec's loop, and \<^verbatim>\<open>allocBuf\<close> returns a result exactly
  when the spec's loop returns it after some number of steps. The hand is a frame index
  (section 3 of the spec) and \<open>numBufs\<close> a 32-bit number.
\<close>

theorem victim_loop_as_specified:
  assumes "clockHand s < numBufs s" and "numBufs s < 2 ^ 32"
  shows "advanceClock s = spec_advanceClock s \<and>
    allocBuf_body s = spec_victim_step s \<and>
    (allocBuf_body s = Continues s' \<or> allocBuf_body s = Returns (x, s') \<longrightarrow>
       clockHand s' = (clockHand s + 1) mod numBufs s) \<and>
    (some_unpinned s \<longrightarrow> (allocBuf s = Some r \<longleftrightarrow> (\<exists>n. spec_victim_loop n s = Some r)))"
proof -
  from assms have small: "clockHand s + 1 < 2 ^ 32" by simp
  then have adv: "advanceClock s = spec_advanceClock s"
    by (simp add: advanceClock_def spec_advanceClock_def)
  have flush: "clockHand s2 = clockHand s1"
    if "flushFile s1 f = (y, s2)" for s1 s2 f y
    using flushFile_hand [of s1 f] that by simp
  have hand: "clockHand s' = (clockHand s + 1) mod numBufs s"
    if "allocBuf_body s = Continues s' \<or> allocBuf_body s = Returns (x, s')"
    using that small flush
    by (auto simp: allocBuf_body_def advanceClock_def Let_def
        split: if_splits prod.splits result.splits)
  have body: "allocBuf_body s = spec_victim_step s"
  proof -
    have "frameNo (bufDescTable s2 ! j) = frameNo (bufDescTable s1 ! j)"
      if "flushFile s1 f = (y, s2)" for s1 s2 f y j
      using flushFile_frameNo [of s1 f j] that by simp
    then show ?thesis
      by (auto simp: allocBuf_body_def spec_victim_step_def Let_def adv
          split: prod.splits result.splits)
  qed
  have "allocBuf s = Some r \<longleftrightarrow> (\<exists>n. spec_victim_loop n s = Some r)"
    if "some_unpinned s"
    using that by (simp add: allocBuf_def allocBuf_loop_iff allocBuf_steps_spec [OF assms])
  with adv body hand show ?thesis by blast
qed

theorem victim_loop_as_specified_witness:
  "clockHand (two_files\<lparr>clockHand := 1\<rparr>) < numBufs (two_files\<lparr>clockHand := 1\<rparr>) \<and>
   numBufs (two_files\<lparr>clockHand := 1\<rparr>) = 3 \<and>
   some_unpinned (two_files\<lparr>clockHand := 1\<rparr>) \<and>
   allocBuf_body (two_files\<lparr>clockHand := 1\<rparr>) = Continues two_files_swept \<and>
   spec_victim_step (two_files\<lparr>clockHand := 1\<rparr>) = Continues two_files_swept \<and>
   clockHand two_files_swept = 2 \<and>
   \<not> refbit (bufDescTable two_files_swept ! 2) \<and>
   allocBuf_body two_files_swept = Returns (Ok 0, two_files_flushed\<lparr>clockHand := 0\<rparr>) \<and>
   spec_victim_step two_files_swept = Returns (Ok 0, two_files_flushed\<lparr>clockHand := 0\<rparr>) \<and>
   allocBuf (two_files\<lparr>clockHand := 1\<rparr>) = Some (Ok 0, two_files_flushed\<lparr>clockHand := 0\<rparr>) \<and>
   (\<exists>n. spec_victim_loop n (two_files\<lparr>clockHand := 1\<rparr>) =
      Some (Ok 0, two_files_flushed\<lparr>clockHand := 0\<rparr>))"
proof -
  let ?s0 = "two_files\<lparr>clockHand := 1\<rparr>"
  let ?end = "two_files_flushed\<lparr>clockHand := 0\<rparr>"
  have hyp0: "clockHand ?s0 < numBufs ?s0" "numBufs ?s0 < 2 ^ 32"
    and val0: "numBufs ?s0 = 3"
    by (simp_all add: two_files_def)
  have hyp1: "clockHand two_files_swept < numBufs two_files_swept" "numBufs two_files_swept < 2 ^ 32"
    and val1: "clockHand two_files_swept = 2" "\<not> refbit (bufDescTable two_files_swept ! 2)"
    by (simp_all add: two_files_swept_def two_files_def)
  have unp: "some_unpinned ?s0"
    by (simp add: some_unpinned_def two_files_def upt_rec)
  have body0: "allocBuf_body ?s0 = Continues two_files_swept"
    by (simp add: allocBuf_body_def advanceClock_def two_files_def two_files_swept_def)
  have "flushFile (two_files_swept\<lparr>clockHand := 0\<rparr>) (File 1) = (Ok (), ?end)"
    by (simp add: flushFile_def two_files_def two_files_swept_def two_files_flushed_def upt_rec
        write_back_def ht_remove_def BufDesc_Clear_def BufDesc_default_def fun_upd_twist)
  then have body1: "allocBuf_body two_files_swept = Returns (Ok 0, ?end)"
    by (simp add: allocBuf_body_def advanceClock_def two_files_def two_files_swept_def
        two_files_flushed_def BufDesc_default_def)
  from body0 body1 have "allocBuf_steps (Suc (Suc 0)) ?s0 = Some (Ok 0, ?end)"
    by simp
  then have "allocBuf_loop ?s0 = Some (Ok 0, ?end)"
    by (rule allocBuf_steps_loop)
  with unp have alloc: "allocBuf ?s0 = Some (Ok 0, ?end)"
    by (simp add: allocBuf_def)
  note spec0 = victim_loop_as_specified [OF hyp0, where r = "(Ok 0, ?end)"]
  note spec1 = victim_loop_as_specified [OF hyp1]
  from spec0 body0 have "spec_victim_step ?s0 = Continues two_files_swept"
    by simp
  moreover from spec1 body1 have "spec_victim_step two_files_swept = Returns (Ok 0, ?end)"
    by simp
  moreover from spec0 alloc unp have "\<exists>n. spec_victim_loop n ?s0 = Some (Ok 0, ?end)"
    by blast
  ultimately show ?thesis
    using hyp0(1) val0 val1 unp body0 body1 alloc by blast
qed

subsection \<open>The hash table after disposePage\<close>

text \<open>
  Claim C2: after any of \<^verbatim>\<open>readPage\<close>, \<^verbatim>\<open>unPinPage\<close>, \<^verbatim>\<open>allocPage\<close>,
  \<^verbatim>\<open>disposePage\<close> and \<^verbatim>\<open>flushFile\<close> returns, every entry \<open>(k, v)\<close> of the hash table points
  to a frame \<open>v\<close> that is valid and holds the page \<open>k\<close>.

  \<^verbatim>\<open>disposePage\<close> breaks this. On a fresh manager of three frames, \<^verbatim>\<open>readPage(A, 1)\<close>
  and \<^verbatim>\<open>unPinPage(A, 1, false)\<close> leave one entry, \<open>(A, 1)\<close> to frame 0, and frame 0 valid
  and holding \<open>(A, 1)\<close>. After \<^verbatim>\<open>disposePage(A, 1)\<close> the entry is still there and frame 0 is
  not valid.
\<close>

theorem disposePage_breaks_map_invariant:
  "readPage (BufMgr_init 3) (File 1) 1 page_X = Some (Ok 0, one_page 1) \<and>
   unPinPage (one_page 1) (File 1) 1 False = (Ok (), one_page 0) \<and>
   hashTable (one_page 0) = [(File 1, 1) \<mapsto> 0] \<and>
   valid (bufDescTable (one_page 0) ! 0) \<and>
   filePtr (bufDescTable (one_page 0) ! 0) = File 1 \<and>
   pageNo (bufDescTable (one_page 0) ! 0) = 1 \<and>
   disposePage (one_page 0) (File 1) 1 = (Ok (), one_page_disposed) \<and>
   hashTable one_page_disposed (File 1, 1) = Some 0 \<and>
   \<not> valid (bufDescTable one_page_disposed ! 0)"
  using read_first_page unpin_first_page dispose_first_page
  by (simp add: one_page_def one_page_disposed_def BufDesc_default_def)

subsection \<open>A successful flushFile\<close>












text \<open>
  The state \<open>stale_page 0 True\<close> is reached from \<open>one_page_disposed\<close> by public calls, and
  \<^verbatim>\<open>flushFile\<close> of the file succeeds in it.
\<close>

lemma read_after_dispose:
  "readPage one_page_disposed (File 1) 2 page_Y = Some (Ok 1, stale_page 1 False)"
proof -
  have "some_unpinned one_page_disposed"
    by (simp add: some_unpinned_def one_page_disposed_def BufDesc_default_def upt_rec)
  moreover have "allocBuf_body one_page_disposed = Returns (Ok 1, one_page_disposed\<lparr>clockHand := 1\<rparr>)"
    by (simp add: allocBuf_body_def advanceClock_def one_page_disposed_def BufDesc_default_def)
  then have "allocBuf_loop one_page_disposed = Some (Ok 1, one_page_disposed\<lparr>clockHand := 1\<rparr>)"
    by (intro allocBuf_steps_loop [where n = 1]) simp
  ultimately have "allocBuf one_page_disposed = Some (Ok 1, one_page_disposed\<lparr>clockHand := 1\<rparr>)"
    by (simp add: allocBuf_def)
  moreover have "ht_lookup (hashTable one_page_disposed) (File 1) 2 = None"
    by (simp add: one_page_disposed_def ht_lookup_def)
  ultimately show ?thesis
    by (simp add: readPage_def)
      (simp add: one_page_disposed_def stale_page_def drop_victim_entry_def ht_insert_def
        BufDesc_Set_def BufDesc_default_def)
qed

lemma unpin_after_dispose:
  "unPinPage (stale_page 1 False) (File 1) 2 True = (Ok (), stale_page 0 True)"
  by (simp add: unPinPage_def ht_lookup_def stale_page_def)




end
